theory Spec2Isabelle
  imports Complex_Main "HOL-Library.Log_Nat"
begin

section \<open>Python values met by the parser\<close>

text \<open>
  The two scripts under \<^verbatim>\<open>examples/\<close> read the line-delimited JSON protocol
  of the conversion tool. The embedding keeps Python's own value universe: what
  \<^verbatim>\<open>json.loads\<close> can return is a \<open>json\<close> value, a Python \<^verbatim>\<open>float\<close> is an IEEE
  binary64 number given by the real it denotes (with the signed zero, the infinities and
  NaN, all of which \<^verbatim>\<open>json.loads\<close> can produce), \<^verbatim>\<open>int\<close> is unbounded, and every
  \<^verbatim>\<open>raise\<close> is a value of \<open>py_exception\<close>. A \<open>string\<close> is a Python \<^verbatim>\<open>str\<close> whose
  characters are code points below 256.
\<close>

datatype py_exception =
  JSONDecodeError | AttributeError | TypeError | ValueError | OverflowError
  | ZeroDivisionError | OSError | RecursionError

datatype pyfloat = Finite real | NegZero | PosInf | NegInf | NaN

datatype json =
  JNull | JBool bool | JInt int | JFloat pyfloat | JStr string
  | JList "json list" | JDict "(string \<times> json) list"

definition and_then :: "py_exception + 'a \<Rightarrow> ('a \<Rightarrow> py_exception + 'b) \<Rightarrow> py_exception + 'b" where
  "and_then m f = (case m of Inl e \<Rightarrow> Inl e | Inr x \<Rightarrow> f x)"

subsection \<open>Binary64 arithmetic\<close>

text \<open>Rounding to the nearest integer, ties to the even one.\<close>

definition round_even :: "real \<Rightarrow> int" where
  "round_even x =
     (let f = \<lfloor>x\<rfloor>; d = x - of_int f
      in if d < 1 / 2 then f else if 1 / 2 < d then f + 1 else if even f then f else f + 1)"

definition pow2 :: "int \<Rightarrow> real" where
  "pow2 e = (if 0 \<le> e then 2 ^ nat e else 1 / 2 ^ nat (- e))"

text \<open>The binary exponent of a positive number: \<open>2 ^ ilog2 a \<le> a < 2 ^ (ilog2 a + 1)\<close>.\<close>

definition ilog2 :: "real \<Rightarrow> int" where
  "ilog2 a = (if 1 \<le> a then bitlen \<lfloor>a\<rfloor> - 1 else - bitlen (\<lceil>1 / a\<rceil> - 1))"

text \<open>
  The exponent of the unit in the last place of the binary64 format at \<open>a\<close>: 53
  significant bits, and no finer than the subnormal spacing \<open>2 ^ - 1074\<close>.
\<close>

definition ulp_exp :: "real \<Rightarrow> int" where
  "ulp_exp a = max (ilog2 a - 52) (- 1074)"

text \<open>
  The binary64 number nearest to a positive real, ties to even; \<open>None\<close> when the
  rounded value is beyond the largest finite double.
\<close>

definition nearest_double :: "real \<Rightarrow> real option" where
  "nearest_double a =
     (let u = ulp_exp a;
          r = of_int (round_even (a / pow2 u)) * pow2 u
      in if 2 ^ 1024 \<le> r then None else Some r)"

definition round_float :: "real \<Rightarrow> pyfloat" where
  "round_float x =
     (if x = 0 then Finite 0
      else case nearest_double \<bar>x\<bar> of
             None \<Rightarrow> (if 0 < x then PosInf else NegInf)
           | Some r \<Rightarrow> if r = 0 then (if 0 < x then Finite 0 else NegZero)
                       else Finite (if 0 < x then r else - r))"

text \<open>
  The finite values of the format: a significand below \<open>2 ^ 53\<close> at an exponent no
  smaller than that of the subnormals.
\<close>

definition is_double :: "real \<Rightarrow> bool" where
  "is_double x \<longleftrightarrow> (\<exists>m e. x = of_int m * pow2 e \<and> \<bar>m\<bar> < 2 ^ 53 \<and> - 1074 \<le> e)"

fun is_zero :: "pyfloat \<Rightarrow> bool" where
  "is_zero (Finite x) = (x = 0)"
| "is_zero NegZero = True"
| "is_zero _ = False"

fun is_inf :: "pyfloat \<Rightarrow> bool" where
  "is_inf PosInf = True"
| "is_inf NegInf = True"
| "is_inf _ = False"

fun sign_neg :: "pyfloat \<Rightarrow> bool" where
  "sign_neg (Finite x) = (x < 0)"
| "sign_neg NegZero = True"
| "sign_neg NegInf = True"
| "sign_neg _ = False"

fun fval :: "pyfloat \<Rightarrow> real" where
  "fval (Finite x) = x"
| "fval _ = 0"

definition signed_zero :: "bool \<Rightarrow> pyfloat" where
  "signed_zero neg = (if neg then NegZero else Finite 0)"

definition signed_inf :: "bool \<Rightarrow> pyfloat" where
  "signed_inf neg = (if neg then NegInf else PosInf)"

text \<open>\<^verbatim>\<open>x * y\<close> on floats: never raises, overflow gives an infinity.\<close>

definition fmul :: "pyfloat \<Rightarrow> pyfloat \<Rightarrow> pyfloat" where
  "fmul x y =
     (if x = NaN \<or> y = NaN then NaN
      else if is_inf x \<or> is_inf y
        then (if is_zero x \<or> is_zero y then NaN else signed_inf (sign_neg x \<noteq> sign_neg y))
      else if is_zero x \<or> is_zero y then signed_zero (sign_neg x \<noteq> sign_neg y)
      else round_float (fval x * fval y))"

text \<open>\<^verbatim>\<open>x / y\<close> on floats: a zero divisor raises, whatever the dividend.\<close>

definition fdiv :: "pyfloat \<Rightarrow> pyfloat \<Rightarrow> py_exception + pyfloat" where
  "fdiv x y =
     (if is_zero y then Inl ZeroDivisionError
      else Inr (if x = NaN \<or> y = NaN then NaN
                else if is_inf x
                  then (if is_inf y then NaN else signed_inf (sign_neg x \<noteq> sign_neg y))
                else if is_inf y \<or> is_zero x then signed_zero (sign_neg x \<noteq> sign_neg y)
                else round_float (fval x / fval y)))"

text \<open>\<^verbatim>\<open>float(n)\<close> for an \<^verbatim>\<open>int\<close>: correctly rounded, OverflowError beyond the doubles.\<close>

definition float_of_int :: "int \<Rightarrow> py_exception + pyfloat" where
  "float_of_int n =
     (let f = round_float (of_int n) in if is_inf f then Inl OverflowError else Inr f)"

text \<open>
  \<^verbatim>\<open>a / b\<close> on two \<^verbatim>\<open>int\<close>s: the correctly rounded quotient, with the sign of a zero
  result taken from the operands.
\<close>

definition int_truediv :: "int \<Rightarrow> int \<Rightarrow> py_exception + pyfloat" where
  "int_truediv a b =
     (if b = 0 then Inl ZeroDivisionError
      else if a = 0 then Inr (signed_zero (b < 0))
      else (let f = round_float (of_int a / of_int b)
            in if is_inf f then Inl OverflowError else Inr f))"

text \<open>\<^verbatim>\<open>int(x)\<close> for a float: truncation toward zero.\<close>

fun int_of_float :: "pyfloat \<Rightarrow> py_exception + int" where
  "int_of_float (Finite x) = Inr (if 0 \<le> x then \<lfloor>x\<rfloor> else \<lceil>x\<rceil>)"
| "int_of_float NegZero = Inr 0"
| "int_of_float PosInf = Inl OverflowError"
| "int_of_float NegInf = Inl OverflowError"
| "int_of_float NaN = Inl ValueError"

text \<open>\<^verbatim>\<open>x >= n\<close> for a float and an \<^verbatim>\<open>int\<close>: Python compares the exact values.\<close>

fun float_ge_int :: "pyfloat \<Rightarrow> int \<Rightarrow> bool" where
  "float_ge_int (Finite x) n = (of_int n \<le> x)"
| "float_ge_int NegZero n = (n \<le> 0)"
| "float_ge_int PosInf n = True"
| "float_ge_int NegInf n = False"
| "float_ge_int NaN n = False"

subsection \<open>Operators on decoded values\<close>

text \<open>Truth value testing, as \<^verbatim>\<open>if event:\<close> and \<^verbatim>\<open>if eta\<close> do it.\<close>

fun truthy :: "json \<Rightarrow> bool" where
  "truthy JNull = False"
| "truthy (JBool b) = b"
| "truthy (JInt n) = (n \<noteq> 0)"
| "truthy (JFloat f) = (\<not> is_zero f)"
| "truthy (JStr s) = (s \<noteq> [])"
| "truthy (JList xs) = (xs \<noteq> [])"
| "truthy (JDict kvs) = (kvs \<noteq> [])"

text \<open>\<^verbatim>\<open>d.get(key, default)\<close> on the items of a dict.\<close>

definition dict_get :: "(string \<times> json) list \<Rightarrow> string \<Rightarrow> json \<Rightarrow> json" where
  "dict_get kvs k d = (case map_of kvs k of None \<Rightarrow> d | Some v \<Rightarrow> v)"

text \<open>\<^verbatim>\<open>v == 0\<close>.\<close>

fun eq_zero :: "json \<Rightarrow> bool" where
  "eq_zero (JInt n) = (n = 0)"
| "eq_zero (JBool b) = (\<not> b)"
| "eq_zero (JFloat f) = is_zero f"
| "eq_zero _ = False"

text \<open>
  \<^verbatim>\<open>float(v)\<close>. Parsing a \<^verbatim>\<open>str\<close> as a float is the interpreter's, taken as the
  parameter \<open>str2f\<close>.
\<close>

fun py_float :: "(string \<Rightarrow> py_exception + pyfloat) \<Rightarrow> json \<Rightarrow> py_exception + pyfloat" where
  "py_float str2f (JInt n) = float_of_int n"
| "py_float str2f (JBool b) = Inr (Finite (if b then 1 else 0))"
| "py_float str2f (JFloat f) = Inr f"
| "py_float str2f (JStr s) = str2f s"
| "py_float str2f _ = Inl TypeError"

text \<open>\<^verbatim>\<open>k * v\<close> for an \<^verbatim>\<open>int\<close> \<open>k\<close>: numbers multiply, sequences repeat.\<close>

fun int_mul :: "int \<Rightarrow> json \<Rightarrow> py_exception + json" where
  "int_mul k (JInt n) = Inr (JInt (k * n))"
| "int_mul k (JBool b) = Inr (JInt (k * (if b then 1 else 0)))"
| "int_mul k (JFloat f) = and_then (float_of_int k) (\<lambda>kf. Inr (JFloat (fmul kf f)))"
| "int_mul k (JStr s) = Inr (JStr (concat (replicate (nat k) s)))"
| "int_mul k (JList xs) = Inr (JList (concat (replicate (nat k) xs)))"
| "int_mul k _ = Inl TypeError"

text \<open>\<^verbatim>\<open>v / k\<close> for an \<^verbatim>\<open>int\<close> \<open>k\<close>: true division, defined on numbers only.\<close>

fun truediv_int :: "json \<Rightarrow> int \<Rightarrow> py_exception + pyfloat" where
  "truediv_int (JInt n) k = int_truediv n k"
| "truediv_int (JBool b) k = int_truediv (if b then 1 else 0) k"
| "truediv_int (JFloat f) k = and_then (float_of_int k) (\<lambda>kf. fdiv f kf)"
| "truediv_int _ k = Inl TypeError"

subsection \<open>Text\<close>

text \<open>
  Printed text is a list of pieces: literal characters, a glyph outside Latin-1 by its
  code point, \<open>Val v\<close> for \<^verbatim>\<open>str(v)\<close> of a value interpolated without a format
  specification, \<open>Dumps v\<close> for \<^verbatim>\<open>json.dumps(v, indent=2)\<close> and \<open>Exc e\<close> for the
  message of an exception.
\<close>

datatype piece = Lit string | Glyph nat | Val json | Dumps json | Exc py_exception

definition newline :: piece where
  "newline = Lit [CHR 0x0A]"

text \<open>\<^verbatim>\<open>print(t)\<close>.\<close>

definition print_line :: "piece list \<Rightarrow> piece list" where
  "print_line t = t @ [newline]"

definition isspace :: "char \<Rightarrow> bool" where
  "isspace c = (of_char c \<in> {9, 10, 11, 12, 13, 28, 29, 30, 31, 32, 133, 160 :: nat})"

text \<open>\<^verbatim>\<open>s.strip()\<close>.\<close>

definition strip :: "string \<Rightarrow> string" where
  "strip s = rev (dropWhile isspace (rev (dropWhile isspace s)))"

fun str_of_nat :: "nat \<Rightarrow> string" where
  "str_of_nat n =
     (if n < 10 then [''0123456789'' ! n]
      else str_of_nat (n div 10) @ [''0123456789'' ! (n mod 10)])"

definition rjust :: "nat \<Rightarrow> char \<Rightarrow> string \<Rightarrow> string" where
  "rjust w c s = replicate (w - length s) c @ s"

text \<open>
  The digits of a non-negative number in fixed-point notation with \<open>prec\<close> decimals.
  CPython rounds the exact binary value correctly, ties to even.
\<close>

definition fixed_digits :: "nat \<Rightarrow> real \<Rightarrow> string" where
  "fixed_digits prec a =
     (let n = nat (round_even (a * 10 ^ prec))
      in str_of_nat (n div 10 ^ prec)
         @ (if prec = 0 then [] else ''.'' @ rjust prec (CHR ''0'') (str_of_nat (n mod 10 ^ prec))))"

fun format_float :: "nat \<Rightarrow> pyfloat \<Rightarrow> string" where
  "format_float prec (Finite x) = (if x < 0 then ''-'' else []) @ fixed_digits prec \<bar>x\<bar>"
| "format_float prec NegZero = ''-'' @ fixed_digits prec 0"
| "format_float prec PosInf = ''inf''"
| "format_float prec NegInf = ''-inf''"
| "format_float prec NaN = ''nan''"

text \<open>
  The format specification \<^verbatim>\<open>{v:W.Pf}\<close> of an f-string (\<open>width = 0\<close> when no width is
  given): \<^verbatim>\<open>int\<close> and \<^verbatim>\<open>bool\<close> are converted to float first, \<^verbatim>\<open>str\<close> rejects
  the format code with ValueError, every other type with TypeError.
\<close>

fun format_f :: "nat \<Rightarrow> nat \<Rightarrow> json \<Rightarrow> py_exception + string" where
  "format_f width prec (JInt n) =
     and_then (float_of_int n) (\<lambda>f. Inr (rjust width (CHR '' '') (format_float prec f)))"
| "format_f width prec (JBool b) =
     Inr (rjust width (CHR '' '') (format_float prec (Finite (if b then 1 else 0))))"
| "format_f width prec (JFloat f) = Inr (rjust width (CHR '' '') (format_float prec f))"
| "format_f width prec (JStr s) = Inl ValueError"
| "format_f width prec _ = Inl TypeError"

text \<open>
  \<^verbatim>\<open>glyph * n\<close> for a one-character string: a count that is not a machine index
  raises OverflowError, a count below one gives the empty string.
\<close>

definition ssize_max :: int where
  "ssize_max = 2 ^ 63 - 1"

definition str_repeat :: "piece \<Rightarrow> int \<Rightarrow> py_exception + piece list" where
  "str_repeat g n =
     (if n < - ssize_max - 1 \<or> ssize_max < n then Inl OverflowError
      else Inr (replicate (nat n) g))"

section \<open>The parser object\<close>

text \<open>
  The attributes of \<^verbatim>\<open>AudibleUtilParser\<close>. They hold whatever the events carry, so
  three of them are decoded values; \<open>start_time\<close> is \<^verbatim>\<open>None\<close> or a clock reading.
\<close>

record parser =
  current_chapter :: json
  total_chapters :: json
  start_time :: "pyfloat option"
  conversion_success :: json

text \<open>\<^verbatim>\<open>__init__\<close>.\<close>

definition init :: parser where
  "init = \<lparr>current_chapter = JInt 0, total_chapters = JInt 0, start_time = None,
            conversion_success = JBool False\<rparr>"

subsection \<open>\<^verbatim>\<open>format_file_size\<close>\<close>

definition units :: "string list" where
  "units = [''B'', ''KB'', ''MB'', ''GB'']"

text \<open>
  The \<^verbatim>\<open>while\<close> loop: it stops after at most three divisions, so the recursion is
  well-founded on the distance of \<open>unit_index\<close> from the last unit.
\<close>

function size_loop :: "pyfloat \<Rightarrow> nat \<Rightarrow> py_exception + pyfloat \<times> nat" where
  "size_loop sz unit_index =
     (if float_ge_int sz 1024 \<and> unit_index < length units - 1
      then (case fdiv sz (Finite 1024) of
              Inl e \<Rightarrow> Inl e
            | Inr sz' \<Rightarrow> size_loop sz' (unit_index + 1))
      else Inr (sz, unit_index))"
  by pat_completeness auto
termination
  by (relation "measure (\<lambda>(sz, unit_index). length units - 1 - unit_index)") auto

definition format_file_size ::
  "(string \<Rightarrow> py_exception + pyfloat) \<Rightarrow> json \<Rightarrow> py_exception + string" where
  "format_file_size str2f size_bytes =
     (if eq_zero size_bytes then Inr ''0 B''
      else and_then (py_float str2f size_bytes) (\<lambda>sz0.
           and_then (size_loop sz0 0) (\<lambda>(sz, unit_index).
           Inr (format_float 1 sz @ '' '' @ units ! unit_index))))"

subsection \<open>\<^verbatim>\<open>handle_event\<close>\<close>

text \<open>
  Handling an event returns the parser after it, the text printed, and the exception
  that ended the call, if any. An assignment or a \<^verbatim>\<open>print\<close> that precedes a raising
  expression has taken place.
\<close>

type_synonym handled = "parser \<times> piece list \<times> py_exception option"

definition on_conversion_started :: "pyfloat \<Rightarrow> parser \<Rightarrow> (string \<times> json) list \<Rightarrow> handled" where
  "on_conversion_started now self event =
     (let self1 = self\<lparr>total_chapters := dict_get event ''total_chapters'' (JInt 0)\<rparr>;
          output_format = dict_get event ''output_format'' (JStr ''unknown'');
          output_path = dict_get event ''output_path'' (JStr ''unknown'')
      in (self1\<lparr>start_time := Some now\<rparr>,
          print_line [Glyph 0x1F680, Lit '' Conversion started: '', Val (total_chapters self1),
                      Lit '' chapters to '', Val output_format, Lit '' format'']
          @ print_line [Glyph 0x1F4C1, Lit '' Output path: '', Val output_path],
          None))"

definition on_chapter_started :: "parser \<Rightarrow> (string \<times> json) list \<Rightarrow> handled" where
  "on_chapter_started self event =
     (let chapter_num = dict_get event ''chapter_number'' (JInt 0);
          chapter_title = dict_get event ''chapter_title'' (JStr ''Unknown'');
          duration = dict_get event ''duration_seconds'' (JInt 0);
          self1 = self\<lparr>current_chapter := chapter_num\<rparr>;
          out1 = print_line [newline, Glyph 0x1F4D6, Lit '' Chapter '', Val chapter_num, Lit ''/'',
                             Val (total_chapters self1), Lit '': '', Val chapter_title]
      in case format_f 0 1 duration of
           Inl e \<Rightarrow> (self1, out1, Some e)
         | Inr d \<Rightarrow> (self1,
                     out1 @ print_line [Glyph 0x23F1, Glyph 0xFE0F, Lit ''  Duration: '', Lit d,
                                        Lit '' seconds''],
                     None))"

definition bar_length :: int where
  "bar_length = 40"

text \<open>\<^verbatim>\<open>int(bar_length * progress_pct / 100)\<close>.\<close>

definition filled_length :: "json \<Rightarrow> py_exception + int" where
  "filled_length progress_pct =
     and_then (int_mul bar_length progress_pct) (\<lambda>x.
     and_then (truediv_int x 100) int_of_float)"

definition full_block :: piece where
  "full_block = Glyph 0x2588"

definition light_shade :: piece where
  "light_shade = Glyph 0x2591"

text \<open>The progress bar for a filled length.\<close>

definition bar :: "int \<Rightarrow> py_exception + piece list" where
  "bar filled =
     and_then (str_repeat full_block filled) (\<lambda>done.
     and_then (str_repeat light_shade (bar_length - filled)) (\<lambda>rest. Inr (done @ rest)))"

text \<open>\<^verbatim>\<open>f"{eta:.0f}s" if eta else "Unknown"\<close>.\<close>

definition eta_str :: "json \<Rightarrow> py_exception + string" where
  "eta_str eta = (if truthy eta then and_then (format_f 0 0 eta) (\<lambda>s. Inr (s @ ''s''))
                  else Inr ''Unknown'')"

text \<open>
  The \<^verbatim>\<open>chapter_progress\<close> branch up to its single \<^verbatim>\<open>print\<close>, which ends without
  a newline. The f-string evaluates its fields from left to right.
\<close>

definition progress_line ::
  "(string \<Rightarrow> py_exception + pyfloat) \<Rightarrow> (string \<times> json) list \<Rightarrow> py_exception + piece list" where
  "progress_line str2f event =
     (let progress_pct = dict_get event ''progress_percentage'' (JInt 0);
          speed = dict_get event ''speed'' (JInt 0);
          bitrate = dict_get event ''bitrate'' (JInt 0);
          file_size = dict_get event ''file_size'' (JInt 0);
          eta = dict_get event ''eta_seconds'' JNull
      in and_then (filled_length progress_pct) (\<lambda>filled.
         and_then (bar filled) (\<lambda>b.
         and_then (format_file_size str2f file_size) (\<lambda>size_str.
         and_then (eta_str eta) (\<lambda>eta_s.
         and_then (format_f 5 1 progress_pct) (\<lambda>pct.
         and_then (format_f 0 1 speed) (\<lambda>spd.
         and_then (truediv_int bitrate 1000) (\<lambda>kbps.
         Inr ([Lit [CHR 0x0D], Lit ''  ''] @ b
              @ [Lit '' '', Lit pct, Lit ''% | Speed: '', Lit spd, Lit ''x | Bitrate: '',
                 Lit (format_float 0 kbps), Lit ''kbps | Size: '', Lit size_str,
                 Lit '' | ETA: '', Lit eta_s])))))))))"

definition on_chapter_progress ::
  "(string \<Rightarrow> py_exception + pyfloat) \<Rightarrow> parser \<Rightarrow> (string \<times> json) list \<Rightarrow> handled" where
  "on_chapter_progress str2f self event =
     (case progress_line str2f event of
        Inl e \<Rightarrow> (self, [], Some e)
      | Inr t \<Rightarrow> (self, t, None))"

definition on_chapter_completed :: "parser \<Rightarrow> (string \<times> json) list \<Rightarrow> handled" where
  "on_chapter_completed self event =
     (let chapter_num = dict_get event ''chapter_number'' (JInt 0);
          chapter_title = dict_get event ''chapter_title'' (JStr ''Unknown'');
          output_file = dict_get event ''output_file'' (JStr ''Unknown'');
          duration = dict_get event ''duration_seconds'' (JInt 0);
          out1 = print_line [newline, Glyph 0x2705, Lit '' Chapter '', Val chapter_num,
                             Lit '' completed: '', Val chapter_title]
                 @ print_line [Glyph 0x1F4C4, Lit '' Output: '', Val output_file]
      in case format_f 0 1 duration of
           Inl e \<Rightarrow> (self, out1, Some e)
         | Inr d \<Rightarrow> (self,
                     out1 @ print_line [Glyph 0x23F1, Glyph 0xFE0F, Lit ''  Duration: '', Lit d,
                                        Lit '' seconds''],
                     None))"

definition on_conversion_completed :: "parser \<Rightarrow> (string \<times> json) list \<Rightarrow> handled" where
  "on_conversion_completed self event =
     (let total_duration = dict_get event ''total_duration_seconds'' (JInt 0);
          success = dict_get event ''success'' (JBool False);
          self1 = self\<lparr>conversion_success := success\<rparr>
      in if truthy success
         then (let out1 = print_line [newline, Glyph 0x1F389,
                                      Lit '' Conversion completed successfully!'']
               in case format_f 0 1 total_duration of
                    Inl e \<Rightarrow> (self1, out1, Some e)
                  | Inr d \<Rightarrow> (self1,
                              out1 @ print_line [Glyph 0x23F1, Glyph 0xFE0F, Lit ''  Total time: '',
                                                 Lit d, Lit '' seconds''],
                              None))
         else (self1, print_line [newline, Glyph 0x274C, Lit '' Conversion failed!''], None))"

definition on_error :: "parser \<Rightarrow> (string \<times> json) list \<Rightarrow> handled" where
  "on_error self event =
     (let message = dict_get event ''message'' (JStr ''Unknown error'');
          chapter_num = dict_get event ''chapter_number'' JNull
      in if truthy chapter_num
         then (self, print_line [newline, Glyph 0x274C, Lit '' Error in chapter '', Val chapter_num,
                                 Lit '': '', Val message], None)
         else (self, print_line [newline, Glyph 0x274C, Lit '' Error: '', Val message], None))"

text \<open>
  \<^verbatim>\<open>handle_event\<close>: \<open>now\<close> is what \<^verbatim>\<open>time.time()\<close> returns during the call.
  Only a dict has \<^verbatim>\<open>get\<close>; a tag that matches no branch falls through the chain.
\<close>

fun handle_event ::
  "(string \<Rightarrow> py_exception + pyfloat) \<Rightarrow> pyfloat \<Rightarrow> parser \<Rightarrow> json \<Rightarrow> handled" where
  "handle_event str2f now self (JDict event) =
     (let event_type = dict_get event ''type'' JNull
      in if event_type = JStr ''conversion_started'' then on_conversion_started now self event
         else if event_type = JStr ''chapter_started'' then on_chapter_started self event
         else if event_type = JStr ''chapter_progress'' then on_chapter_progress str2f self event
         else if event_type = JStr ''chapter_completed'' then on_chapter_completed self event
         else if event_type = JStr ''conversion_completed'' then on_conversion_completed self event
         else if event_type = JStr ''error'' then on_error self event
         else (self, [], None))"
| "handle_event str2f now self _ = (self, [], Some AttributeError)"

section \<open>Decoding lines and supervising the tool\<close>

text \<open>
  What the scripts get from outside: the JSON decoder and the float parser of the
  interpreter, the operating system's answer to \<^verbatim>\<open>subprocess.Popen\<close>, and the clock
  (\<open>time_time i\<close> is its reading while line \<open>i\<close> of the output is handled).
  The child's output is the finite list of lines it writes before it closes the stream,
  so the reading loop is a structural recursion. Memory is unbounded (no MemoryError),
  and a sequence count is a 64-bit index.
\<close>

datatype popen_result =
  PopenRaises py_exception
  | PopenOk (stdout_lines: "string list") (exit_code: int) (stderr_text: string)

record world =
  json_loads :: "string \<Rightarrow> py_exception + json"
  float_of_str :: "string \<Rightarrow> py_exception + pyfloat"
  popen :: "string list \<Rightarrow> popen_result"
  time_time :: "nat \<Rightarrow> pyfloat"

text \<open>
  \<^verbatim>\<open>parse_event\<close>: the decoded value, or \<^verbatim>\<open>None\<close> (which is \<open>JNull\<close>) when
  decoding raises JSONDecodeError; any other exception passes through.
\<close>

definition parse_event :: "(string \<Rightarrow> py_exception + json) \<Rightarrow> string \<Rightarrow> py_exception + json" where
  "parse_event loads line =
     (case loads (strip line) of
        Inr v \<Rightarrow> Inr v
      | Inl e \<Rightarrow> if e = JSONDecodeError then Inr JNull else Inl e)"

text \<open>The \<^verbatim>\<open>for line in process.stdout\<close> loop of \<^verbatim>\<open>run_conversion\<close>, from line \<open>i\<close> on.\<close>

fun read_loop :: "world \<Rightarrow> nat \<Rightarrow> parser \<Rightarrow> string list \<Rightarrow> handled" where
  "read_loop w i self [] = (self, [], None)"
| "read_loop w i self (line # rest) =
     (case parse_event (json_loads w) line of
        Inl e \<Rightarrow> (self, [], Some e)
      | Inr event \<Rightarrow>
          if truthy event
          then (case handle_event (float_of_str w) (time_time w i) self event of
                  (self1, out1, Some e) \<Rightarrow> (self1, out1, Some e)
                | (self1, out1, None) \<Rightarrow>
                    (case read_loop w (Suc i) self1 rest of
                       (self2, out2, r) \<Rightarrow> (self2, out1 @ out2, r)))
          else read_loop w (Suc i) self rest)"

definition machine_readable :: string where
  "machine_readable = ''--machine-readable''"

record run_result =
  returned :: int
  parser_after :: parser
  printed :: "piece list"
  spawned :: "string list"

definition banner :: "piece list" where
  "banner =
     print_line [Glyph 0x1F3B5,
                 Lit '' Starting audible-util conversion with machine-readable output...'']
     @ print_line [Lit (replicate 60 (CHR ''=''))]"

text \<open>
  \<^verbatim>\<open>run_conversion\<close>. \<open>spawned\<close> is the command line handed to
  \<^verbatim>\<open>subprocess.Popen\<close>. The \<^verbatim>\<open>except Exception\<close> clause covers the whole body, so
  it catches a failed spawn and an exception of the loop alike.
\<close>

definition run_conversion :: "world \<Rightarrow> parser \<Rightarrow> string list \<Rightarrow> run_result" where
  "run_conversion w self args =
     (let cmd = args @ [machine_readable]
      in case popen w cmd of
           PopenRaises e \<Rightarrow>
             \<lparr>returned = 1, parser_after = self,
              printed = banner @ print_line [newline, Glyph 0x274C,
                                             Lit '' Error running audible-util: '', Exc e],
              spawned = cmd\<rparr>
         | PopenOk lines return_code stderr_output \<Rightarrow>
             (case read_loop w 0 self lines of
                (self1, out1, Some e) \<Rightarrow>
                  \<lparr>returned = 1, parser_after = self1,
                   printed = banner @ out1 @ print_line [newline, Glyph 0x274C,
                                                  Lit '' Error running audible-util: '', Exc e],
                   spawned = cmd\<rparr>
              | (self1, out1, None) \<Rightarrow>
                  if return_code \<noteq> 0
                  then \<lparr>returned = return_code, parser_after = self1,
                        printed = banner @ out1
                          @ print_line [newline, Glyph 0x274C,
                                        Lit '' Process failed with return code '',
                                        Val (JInt return_code)]
                          @ print_line [Lit ''Error output: '', Lit stderr_output],
                        spawned = cmd\<rparr>
                  else \<lparr>returned = 0, parser_after = self1, printed = banner @ out1,
                        spawned = cmd\<rparr>))"

subsection \<open>\<^verbatim>\<open>simple_json_parser.py\<close>\<close>



section \<open>The specification's wording\<close>

text \<open>
  The filled length as the specification words it, for comparison with
  \<open>filled_length\<close>: \<open>round(w * p / 100)\<close> clamped to \<open>[0, w]\<close>.
\<close>

definition spec_filled_length :: "int \<Rightarrow> real \<Rightarrow> int" where
  "spec_filled_length w p = max 0 (min w (round (of_int w * p / 100)))"



text \<open>
  Two parsers agree on the progress they record when they differ at most in
  \<open>start_time\<close>, the one attribute that holds a clock reading.
\<close>

definition same_progress :: "parser \<Rightarrow> parser \<Rightarrow> bool" where
  "same_progress a b \<longleftrightarrow>
     current_chapter a = current_chapter b \<and> total_chapters a = total_chapters b
     \<and> conversion_success a = conversion_success b"

section \<open>A world for the examples\<close>

text \<open>
  A decoder that knows three lines (the list \<^verbatim>\<open>[1, 2]\<close>, the number \<^verbatim>\<open>5\<close> and
  a \<^verbatim>\<open>chapter_started\<close> event for chapter 1) and rejects every other text, a float
  parser that rejects every string, a clock that stands still, and the given answer of
  \<^verbatim>\<open>subprocess.Popen\<close>.
\<close>

definition quoted :: "string \<Rightarrow> string" where
  "quoted s = [CHR 0x22] @ s @ [CHR 0x22]"

definition chapter_one_line :: string where
  "chapter_one_line =
     ''{'' @ quoted ''type'' @ '': '' @ quoted ''chapter_started'' @ '', ''
     @ quoted ''chapter_number'' @ '': 1}''"

definition example_loads :: "string \<Rightarrow> py_exception + json" where
  "example_loads s =
     (if s = ''[1, 2]'' then Inr (JList [JInt 1, JInt 2])
      else if s = ''5'' then Inr (JInt 5)
      else if s = chapter_one_line
        then Inr (JDict [(''type'', JStr ''chapter_started''), (''chapter_number'', JInt 1)])
      else Inl JSONDecodeError)"

definition example_world :: "popen_result \<Rightarrow> world" where
  "example_world child =
     \<lparr>json_loads = example_loads, float_of_str = (\<lambda>s. Inl ValueError),
      popen = (\<lambda>cmd. child), time_time = (\<lambda>i. Finite 0)\<rparr>"

section \<open>Properties of the arithmetic\<close>

lemma pow2_powi: "pow2 e = 2 powi e"
  by (simp add: pow2_def power_int_def power_inverse inverse_eq_divide power_one_over)

lemma pow2_pos: "0 < pow2 e"
  by (simp add: pow2_powi)

lemma pow2_add: "pow2 (a + b) = pow2 a * pow2 b"
  by (simp add: pow2_powi power_int_add)

lemma pow2_diff: "pow2 (a - b) = pow2 a / pow2 b"
  by (simp add: pow2_powi power_int_diff)

lemma pow2_nat: "pow2 (int n) = 2 ^ n"
  by (simp add: pow2_def)

lemma pow2_numeral: "pow2 (numeral n) = 2 ^ numeral n"
  by (simp add: pow2_def)

lemma pow2_Suc: "pow2 (e + 1) = pow2 e * 2"
  by (simp add: pow2_add) (simp add: pow2_def)

lemma pow2_strict_mono: "a < b \<Longrightarrow> pow2 a < pow2 b"
  by (simp add: pow2_powi power_int_strict_increasing)

lemma pow2_mono: "a \<le> b \<Longrightarrow> pow2 a \<le> pow2 b"
  by (simp add: pow2_powi power_int_increasing)

lemma pow2_less_iff: "pow2 a < pow2 b \<longleftrightarrow> a < b"
  using pow2_strict_mono [of a b] pow2_mono [of b a] by (auto simp: not_less [symmetric])

lemma pow2_le_iff: "pow2 a \<le> pow2 b \<longleftrightarrow> a \<le> b"
  using pow2_less_iff [of b a] by (auto simp: not_less [symmetric])

lemma round_even_of_int: "round_even (of_int n) = n"
  by (simp add: round_even_def)

lemma round_even_ge: "of_int N \<le> t \<Longrightarrow> N \<le> round_even t"
  unfolding round_even_def Let_def by (auto; linarith)

lemma round_even_le: "t \<le> of_int N \<Longrightarrow> round_even t \<le> N"
  unfolding round_even_def Let_def by (auto; linarith)

lemma round_even_less: "t < of_int N - 1 / 2 \<Longrightarrow> round_even t < N"
  unfolding round_even_def Let_def by (auto; linarith)

lemma ilog2_lower: "0 < a \<Longrightarrow> pow2 (ilog2 a) \<le> a"
proof (cases "1 \<le> a")
  case True
  let ?n = "\<lfloor>a\<rfloor>"
  from True have n: "0 < ?n" by simp
  then have b: "1 \<le> bitlen ?n" by (simp add: bitlen_ge_iff_power)
  from bitlen_bounds [OF n] have "(2::int) ^ nat (bitlen ?n - 1) \<le> ?n" by simp
  then have "real_of_int (2 ^ nat (bitlen ?n - 1)) \<le> of_int ?n" by (simp only: of_int_le_iff)
  also have "\<dots> \<le> a" by simp
  finally show ?thesis using True b by (simp add: ilog2_def pow2_def)
next
  case False
  assume a: "0 < a"
  let ?c = "\<lceil>1 / a\<rceil> - 1"
  let ?b = "bitlen ?c"
  from False a have "1 < 1 / a" by simp
  then have c: "0 < ?c" by (simp add: less_ceiling_iff)
  then have b: "1 \<le> ?b" by (simp add: bitlen_ge_iff_power)
  from bitlen_bounds [OF c] have "?c < 2 ^ nat ?b" by simp
  then have "\<lceil>1 / a\<rceil> \<le> 2 ^ nat ?b" by simp
  then have "1 / a \<le> 2 ^ nat ?b" by (simp add: ceiling_le_iff)
  with a have "1 / 2 ^ nat ?b \<le> a" by (simp add: field_simps)
  then show ?thesis using False b by (simp add: ilog2_def pow2_def)
qed

lemma ilog2_upper: "0 < a \<Longrightarrow> a < pow2 (ilog2 a + 1)"
proof (cases "1 \<le> a")
  case True
  let ?n = "\<lfloor>a\<rfloor>"
  from True have n: "0 < ?n" by simp
  from bitlen_bounds [OF n] have "?n + 1 \<le> 2 ^ nat (bitlen ?n)" by simp
  then have "real_of_int (?n + 1) \<le> of_int (2 ^ nat (bitlen ?n))" by (simp only: of_int_le_iff)
  then have "real_of_int ?n + 1 \<le> 2 ^ nat (bitlen ?n)" by simp
  moreover have "a < real_of_int ?n + 1" by linarith
  ultimately have "a < 2 ^ nat (bitlen ?n)" by linarith
  then show ?thesis using True bitlen_nonneg [of ?n] by (simp add: ilog2_def pow2_def)
next
  case False
  assume a: "0 < a"
  let ?c = "\<lceil>1 / a\<rceil> - 1"
  let ?b = "bitlen ?c"
  from False a have "1 < 1 / a" by simp
  then have c: "0 < ?c" by (simp add: less_ceiling_iff)
  then have b: "1 \<le> ?b" by (simp add: bitlen_ge_iff_power)
  from bitlen_bounds [OF c] have "(2::int) ^ nat (?b - 1) \<le> ?c" by simp
  then have "real_of_int (2 ^ nat (?b - 1)) \<le> of_int ?c" by (simp only: of_int_le_iff)
  then have "2 ^ nat (?b - 1) \<le> real_of_int ?c" by simp
  moreover have "real_of_int ?c < 1 / a" by simp linarith
  ultimately have "2 ^ nat (?b - 1) < 1 / a" by linarith
  with a have lt: "a < 1 / 2 ^ nat (?b - 1)" by (simp add: field_simps)
  show ?thesis
  proof (cases "?b = 1")
    case True
    with lt show ?thesis using False by (simp add: ilog2_def pow2_def)
  next
    case False
    with b have "1 < ?b" by simp
    moreover then have "nat (?b - 1) = nat (- (1 - ?b))" by simp
    ultimately show ?thesis using lt \<open>\<not> 1 \<le> a\<close> by (simp add: ilog2_def pow2_def)
  qed
qed

lemma ilog2_less: "0 < a \<Longrightarrow> a < pow2 k \<Longrightarrow> ilog2 a < k"
  using ilog2_lower [of a] pow2_less_iff [of "ilog2 a" k] by simp

lemma ilog2_ge: "0 < a \<Longrightarrow> pow2 k \<le> a \<Longrightarrow> k \<le> ilog2 a"
  using ilog2_upper [of a] pow2_less_iff [of k "ilog2 a + 1"] by simp



lemma ulp_exp_ge: "- 1074 \<le> ulp_exp a"
  by (simp add: ulp_exp_def)

lemma scaled_less: "0 < a \<Longrightarrow> a / pow2 (ulp_exp a) < 2 ^ 53"
proof -
  assume a: "0 < a"
  have "ilog2 a + 1 \<le> ulp_exp a + 53" by (simp add: ulp_exp_def)
  then have "pow2 (ilog2 a + 1) \<le> pow2 (ulp_exp a + 53)" by (rule pow2_mono)
  with ilog2_upper [OF a] have "a < pow2 (ulp_exp a + 53)" by simp
  also have "\<dots> = pow2 (ulp_exp a) * 2 ^ 53" by (simp only: pow2_add pow2_numeral)
  finally show ?thesis using pow2_pos [of "ulp_exp a"] by (simp add: field_simps)
qed

lemma nearest_double_small:
  assumes "0 < a" "a < 2 ^ 53"
  obtains k where "nearest_double a = Some (of_int (round_even (a * 2 ^ k)) / 2 ^ k)"
    and "a < 2 ^ 51 \<longrightarrow> 2 \<le> k"
proof -
  let ?u = "ulp_exp a"
  let ?k = "nat (- ?u)"
  from assms have "a < pow2 53" by (simp add: pow2_def)
  with assms(1) have "ilog2 a < 53" by (rule ilog2_less)
  then have u: "?u \<le> 0" by (simp add: ulp_exp_def)
  then have p: "pow2 ?u = 1 / 2 ^ ?k"
    by (cases "?u = 0") (simp_all add: pow2_def)
  have "a * 2 ^ ?k \<le> of_int (2 ^ 53 * 2 ^ ?k)" using assms by simp
  then have "round_even (a * 2 ^ ?k) \<le> 2 ^ 53 * 2 ^ ?k" by (rule round_even_le)
  then have "real_of_int (round_even (a * 2 ^ ?k)) \<le> of_int (2 ^ 53 * 2 ^ ?k)"
    by (simp only: of_int_le_iff)
  then have "real_of_int (round_even (a * 2 ^ ?k)) / 2 ^ ?k \<le> 2 ^ 53"
    by (simp add: field_simps)
  also have "\<dots> < (2::real) ^ 1024" by simp
  finally have 1: "nearest_double a = Some (of_int (round_even (a * 2 ^ ?k)) / 2 ^ ?k)"
    by (simp add: nearest_double_def Let_def p)
  have 2: "a < 2 ^ 51 \<longrightarrow> 2 \<le> ?k"
  proof
    assume "a < 2 ^ 51"
    then have "a < pow2 51" by (simp add: pow2_def)
    with assms(1) have "ilog2 a < 51" by (rule ilog2_less)
    then show "2 \<le> ?k" by (simp add: ulp_exp_def)
  qed
  from 1 2 show thesis by (rule that)
qed

lemma round_float_pos:
  "0 < a \<Longrightarrow> nearest_double a = Some r \<Longrightarrow> round_float a = Finite r"
  by (simp add: round_float_def)

lemma round_float_small:
  assumes "0 < a" "a \<le> of_int hi" "hi < 2 ^ 53"
  obtains r where "round_float a = Finite r" and "0 \<le> r" and "r \<le> of_int hi"
    and "\<And>lo. of_int lo \<le> a \<Longrightarrow> of_int lo \<le> r"
    and "\<And>N. a < 2 ^ 51 \<Longrightarrow> a \<le> of_int N - 1 / 5 \<Longrightarrow> r < of_int N"
proof -
  from assms have "a \<le> of_int (2 ^ 53 - 1)" by simp
  then have "a < 2 ^ 53" by simp
  with assms(1) obtain k where n: "nearest_double a = Some (of_int (round_even (a * 2 ^ k)) / 2 ^ k)"
    and k: "a < 2 ^ 51 \<longrightarrow> 2 \<le> k" by (rule nearest_double_small)
  let ?r = "real_of_int (round_even (a * 2 ^ k)) / 2 ^ k"
  have 1: "round_float a = Finite ?r" using assms(1) n by (rule round_float_pos)
  have "of_int 0 \<le> a * 2 ^ k" using assms(1) by simp
  then have "0 \<le> round_even (a * 2 ^ k)" by (rule round_even_ge)
  then have 2: "0 \<le> ?r" by simp
  have "a * 2 ^ k \<le> of_int (hi * 2 ^ k)" using assms(2) by simp
  then have "round_even (a * 2 ^ k) \<le> hi * 2 ^ k" by (rule round_even_le)
  then have "real_of_int (round_even (a * 2 ^ k)) \<le> of_int (hi * 2 ^ k)" by (simp only: of_int_le_iff)
  then have 3: "?r \<le> of_int hi" by (simp add: field_simps)
  have 4: "of_int lo \<le> ?r" if "of_int lo \<le> a" for lo
  proof -
    from that have "of_int (lo * 2 ^ k) \<le> a * 2 ^ k" by simp
    then have "lo * 2 ^ k \<le> round_even (a * 2 ^ k)" by (rule round_even_ge)
    then have "real_of_int (lo * 2 ^ k) \<le> of_int (round_even (a * 2 ^ k))" by (simp only: of_int_le_iff)
    then show ?thesis by (simp add: field_simps)
  qed
  have 5: "?r < of_int N" if "a < 2 ^ 51" "a \<le> of_int N - 1 / 5" for N
  proof -
    from that k have "2 \<le> k" by simp
    then have "(2::real) ^ 2 \<le> 2 ^ k" by (intro power_increasing) simp_all
    then have s: "(4::real) \<le> 2 ^ k" by simp
    from that(2) have "a * 2 ^ k \<le> (of_int N - 1 / 5) * 2 ^ k" by simp
    also have "\<dots> = of_int (N * 2 ^ k) - 2 ^ k / 5" by (simp add: algebra_simps)
    also have "\<dots> < of_int (N * 2 ^ k) - 1 / 2" using s by simp
    finally have "round_even (a * 2 ^ k) < N * 2 ^ k" by (rule round_even_less)
    then have "real_of_int (round_even (a * 2 ^ k)) < of_int (N * 2 ^ k)" by (simp only: of_int_less_iff)
    then show ?thesis by (simp add: field_simps)
  qed
  from 1 2 3 4 5 show thesis by (rule that)
qed


lemma nearest_double_is_double:
  assumes "0 < a" "nearest_double a = Some r"
  shows "is_double r \<and> 0 \<le> r \<and> r < 2 ^ 1024"
proof -
  let ?u = "ulp_exp a"
  let ?M = "round_even (a / pow2 ?u)"
  from assms(2) have r: "r = of_int ?M * pow2 ?u" and lt: "r < 2 ^ 1024"
    by (simp_all add: nearest_double_def Let_def split: if_splits)
  have "of_int 0 \<le> a / pow2 ?u" using assms(1) pow2_pos [of ?u] by simp
  then have M0: "0 \<le> ?M" by (rule round_even_ge)
  have "a / pow2 ?u \<le> of_int (2 ^ 53)" using scaled_less [OF assms(1)] by simp
  then have M1: "?M \<le> 2 ^ 53" by (rule round_even_le)
  have "is_double r"
  proof (cases "?M < 2 ^ 53")
    case True
    with M0 have "\<bar>?M\<bar> < 2 ^ 53" by simp
    with r ulp_exp_ge [of a] show ?thesis unfolding is_double_def by blast
  next
    case False
    with M1 have "?M = 2 ^ 53" by simp
    with r have "r = of_int (2 ^ 52) * pow2 (?u + 1)" by (simp add: pow2_Suc)
    moreover have "\<bar>2 ^ 52 :: int\<bar> < 2 ^ 53" by simp
    moreover have "- 1074 \<le> ?u + 1" using ulp_exp_ge [of a] by simp
    ultimately show ?thesis unfolding is_double_def by blast
  qed
  moreover have "0 \<le> r" using r M0 pow2_pos [of ?u] by simp
  ultimately show ?thesis using lt by simp
qed

lemma nearest_double_exact:
  assumes "is_double x" "0 < x" "x < 2 ^ 1024"
  shows "nearest_double x = Some x"
proof -
  from assms(1) obtain m e where x: "x = of_int m * pow2 e" and m: "\<bar>m\<bar> < 2 ^ 53"
    and e: "- 1074 \<le> e" unfolding is_double_def by blast
  define u where "u = ulp_exp x"
  from m have "m < 2 ^ 53" by simp
  then have "real_of_int m < of_int (2 ^ 53)" by (simp only: of_int_less_iff)
  then have "x < 2 ^ 53 * pow2 e" using x pow2_pos [of e] by simp
  also have "\<dots> = pow2 (e + 53)" by (simp only: pow2_add pow2_numeral) simp
  finally have "ilog2 x < e + 53" using assms(2) by (intro ilog2_less)
  with e have "u \<le> e" by (simp add: ulp_exp_def u_def)
  define d where "d = nat (e - u)"
  from \<open>u \<le> e\<close> have "e = u + int d" by (simp add: d_def)
  then have "pow2 e = pow2 u * 2 ^ d" by (metis pow2_add pow2_nat)
  then have "real_of_int m * pow2 e = of_int (m * 2 ^ d) * pow2 u" by simp
  with x have xs: "x = of_int (m * 2 ^ d) * pow2 u" by (simp only:)
  have "of_int (m * 2 ^ d) * pow2 u / pow2 u = real_of_int (m * 2 ^ d)"
    using pow2_pos [of u] by simp
  with xs have "x / pow2 u = of_int (m * 2 ^ d)" by (simp only:)
  then have "round_even (x / pow2 u) = m * 2 ^ d" by (simp only: round_even_of_int)
  with xs have "of_int (round_even (x / pow2 u)) * pow2 u = x" by (simp only:)
  then show ?thesis using assms(3) by (simp add: nearest_double_def Let_def u_def)
qed

lemma is_double_div_1024:
  assumes "is_double x" "1024 \<le> x"
  shows "is_double (x / 1024)"
proof -
  from assms(1) obtain m e where x: "x = of_int m * pow2 e" and m: "\<bar>m\<bar> < 2 ^ 53"
    and e: "- 1074 \<le> e" unfolding is_double_def by blast
  have "- 53 < e"
  proof (rule ccontr)
    assume "\<not> - 53 < e"
    then have "pow2 e \<le> pow2 (- 53)" by (intro pow2_mono) simp
    then have p: "pow2 e \<le> 1 / 2 ^ 53" by (simp add: pow2_def)
    from m have "m < 2 ^ 53" by simp
  then have "real_of_int m < of_int (2 ^ 53)" by (simp only: of_int_less_iff)
    then have "real_of_int m \<le> 2 ^ 53" by simp
    then have "of_int m * pow2 e \<le> 2 ^ 53 * (1 / 2 ^ 53)"
      using p pow2_pos [of e] by (intro mult_mono) simp_all
    with x assms(2) show False by simp
  qed
  then have "- 1074 \<le> e - 10" by simp
  moreover have "x / 1024 = of_int m * pow2 (e - 10)"
    using x by (simp add: pow2_diff pow2_numeral)
  ultimately show ?thesis using m unfolding is_double_def by blast
qed

lemma fdiv_1024_exact:
  assumes "is_double x" "1024 \<le> x" "x < 2 ^ 1024"
  shows "fdiv (Finite x) (Finite 1024) = Inr (Finite (x / 1024))"
proof -
  have d: "is_double (x / 1024)" using assms(1,2) by (rule is_double_div_1024)
  have p: "0 < x / 1024" using assms(2) by simp
  have "x / 1024 < 2 ^ 1024" using assms(2,3) by simp
  with d p have "nearest_double (x / 1024) = Some (x / 1024)" by (intro nearest_double_exact)
  with p have "round_float (x / 1024) = Finite (x / 1024)" by (rule round_float_pos)
  then show ?thesis using assms(2) by (simp add: fdiv_def)
qed

lemma float_of_int_is_double:
  assumes "0 < n" "float_of_int n = Inr s"
  obtains r where "s = Finite r" and "is_double r" and "0 \<le> r" and "r < 2 ^ 1024"
proof -
  from assms(1) have p: "0 < real_of_int n" by simp
  show thesis
  proof (cases "nearest_double (real_of_int n)")
    case None
    with p assms(2) show ?thesis by (simp add: float_of_int_def round_float_def abs_if)
  next
    case (Some r)
    with p have "round_float (of_int n) = Finite r" by (rule round_float_pos)
    with assms(2) have "s = Finite r" by (simp add: float_of_int_def)
    moreover from p Some have "is_double r \<and> 0 \<le> r \<and> r < 2 ^ 1024"
      by (rule nearest_double_is_double)
    ultimately show ?thesis using that by blast
  qed
qed


declare size_loop.simps [simp del]

lemma size_loop_stop:
  "\<not> (float_ge_int sz 1024 \<and> i < 3) \<Longrightarrow> size_loop sz i = Inr (sz, i)"
  by (subst size_loop.simps) (auto simp: units_def numeral_3_eq_3)

lemma size_loop_step:
  assumes "is_double x" "1024 \<le> x" "x < 2 ^ 1024" "i < 3"
  shows "size_loop (Finite x) i = size_loop (Finite (x / 1024)) (Suc i)"
  using assms by (subst size_loop.simps) (simp add: units_def fdiv_1024_exact)

lemma size_loop_closed:
  assumes "is_double r" "r < 2 ^ 1024"
  shows "size_loop (Finite r) 0 =
           Inr (let k = (if r < 1024 then 0 else if r < 1024 ^ 2 then 1
                         else if r < 1024 ^ 3 then 2 else 3 :: nat)
                in (Finite (r / 1024 ^ k), k))"
proof (cases "r < 1024")
  case True
  then show ?thesis by (simp add: size_loop_stop)
next
  case False
  then have 0: "1024 \<le> r" by simp
  have d1: "is_double (r / 1024)" using assms(1) 0 by (rule is_double_div_1024)
  have s1: "size_loop (Finite r) 0 = size_loop (Finite (r / 1024)) 1"
    using size_loop_step [OF assms(1) 0 assms(2), of 0] by simp
  show ?thesis
  proof (cases "r < 1024 ^ 2")
    case True
    then show ?thesis using 0 s1 by (simp add: size_loop_stop)
  next
    case False
    then have 1: "1024 \<le> r / 1024" by simp
    have l1: "r / 1024 < 2 ^ 1024" using assms(2) 0 by simp
    have d2: "is_double (r / 1024 / 1024)" using d1 1 by (rule is_double_div_1024)
    have s2: "size_loop (Finite (r / 1024)) 1 = size_loop (Finite (r / 1024 / 1024)) 2"
      using size_loop_step [OF d1 1 l1, of 1] by (simp add: numeral_2_eq_2)
    show ?thesis
    proof (cases "r < 1024 ^ 3")
      case True
      then show ?thesis using 0 \<open>\<not> r < 1024 ^ 2\<close> s1 s2 by (simp add: size_loop_stop)
    next
      case False
      then have 2: "1024 \<le> r / 1024 / 1024" by simp
      have l2: "r / 1024 / 1024 < 2 ^ 1024" using assms(2) 0 by simp
      have s3: "size_loop (Finite (r / 1024 / 1024)) 2 = size_loop (Finite (r / 1024 / 1024 / 1024)) 3"
        using size_loop_step [OF d2 2 l2, of 2] by (simp add: numeral_3_eq_3 numeral_2_eq_2)
      show ?thesis using 0 \<open>\<not> r < 1024 ^ 2\<close> False s1 s2 s3 by (simp add: size_loop_stop)
    qed
  qed
qed

lemma str_of_nat_digit:
  assumes "n < 10"
  shows "\<exists>d. str_of_nat n = [d] \<and> d \<in> set ''0123456789''"
proof -
  have "''0123456789'' ! n \<in> set ''0123456789''" using assms by (intro nth_mem) simp
  moreover have "str_of_nat n = [''0123456789'' ! n]" using assms by (subst str_of_nat.simps) simp
  ultimately show ?thesis by blast
qed

lemma fixed_digits_one_decimal:
  "\<exists>ds d. fixed_digits 1 a = ds @ ''.'' @ [d] \<and> d \<in> set ''0123456789''"
proof -
  let ?n = "nat (round_even (a * 10 ^ 1))"
  have "?n mod 10 < 10" by simp
  then obtain d where d: "str_of_nat (?n mod 10) = [d]" "d \<in> set ''0123456789''"
    using str_of_nat_digit by blast
  then have "fixed_digits 1 a = str_of_nat (?n div 10) @ ''.'' @ [d]"
    by (simp add: fixed_digits_def Let_def rjust_def)
  with d(2) show ?thesis by blast
qed


lemmas fl_eval = round_float_def nearest_double_def ulp_exp_def ilog2_def pow2_def round_even_def
  Let_def compute_bitlen

lemmas fmt_eval = fixed_digits_def rjust_def round_even_def Let_def

lemma ilog2_pow2: "ilog2 (pow2 k) = k"
proof -
  have "ilog2 (pow2 k) < k + 1" using pow2_pos [of k] by (intro ilog2_less) (simp_all add: pow2_Suc)
  moreover have "k \<le> ilog2 (pow2 k)" using pow2_pos [of k] by (intro ilog2_ge) simp_all
  ultimately show ?thesis by simp
qed

lemma float_of_int_overflow: "float_of_int (2 ^ 1024) = Inl OverflowError"
proof -
  have "ilog2 (2 ^ 1024) = 1024" using ilog2_pow2 [of 1024] by (simp only: pow2_numeral)
  then have "ulp_exp (2 ^ 1024) = 972" by (simp add: ulp_exp_def)
  then have "nearest_double (2 ^ 1024) = None"
    by (simp add: nearest_double_def Let_def pow2_numeral round_even_def)
  then show ?thesis by (simp add: float_of_int_def round_float_def)
qed

section \<open>The claims\<close>

subsection \<open>C5: file sizes\<close>

text \<open>
  Counterexample to C5 as stated: a byte count of \<open>2 ^ 1024\<close> is an \<^verbatim>\<open>int\<close>, and
  \<^verbatim>\<open>float(size_bytes)\<close> raises OverflowError on it, so nothing is printed.
\<close>

theorem format_file_size_overflow:
  "format_file_size (\<lambda>s. Inl ValueError) (JInt (2 ^ 1024)) = Inl OverflowError"
proof -
  have "\<not> eq_zero (JInt (2 ^ 1024))" by simp
  then show ?thesis
    by (simp only: format_file_size_def and_then_def float_of_int_overflow py_float.simps
        if_False sum.case)
qed

text \<open>
  C5 (amended): for every non-negative \<^verbatim>\<open>int\<close> byte count that \<^verbatim>\<open>float\<close> can
  convert, \<^verbatim>\<open>format_file_size\<close> answers \<^verbatim>\<open>"0 B"\<close> for 0 and otherwise divides the
  float by 1024 until it is below 1024 or the unit list B/KB/MB/GB is exhausted (the
  divisions are exact), and prints the quotient with one decimal place, a space and the
  unit; 0, 1536, 1048576 and 1073741824 give \<^verbatim>\<open>"0 B"\<close>, \<^verbatim>\<open>"1.5 KB"\<close>,
  \<^verbatim>\<open>"1.0 MB"\<close> and \<^verbatim>\<open>"1.0 GB"\<close>.
\<close>

theorem format_file_size_int:
  "(0 \<le> n \<and> float_of_int n = Inr s \<longrightarrow>
      format_file_size str2f (JInt n) =
        Inr (if n = 0 then ''0 B''
             else let r = fval s;
                      k = (if r < 1024 then 0 else if r < 1024 ^ 2 then 1
                           else if r < 1024 ^ 3 then 2 else 3 :: nat)
                  in format_float 1 (Finite (r / 1024 ^ k)) @ '' '' @ [''B'', ''KB'', ''MB'', ''GB''] ! k)
      \<and> (n \<noteq> 0 \<longrightarrow>
           (\<exists>ds d u. format_file_size str2f (JInt n) = Inr (ds @ ''.'' @ [d] @ '' '' @ u)
              \<and> d \<in> set ''0123456789'' \<and> u \<in> set units)))
   \<and> format_file_size str2f (JInt 0) = Inr ''0 B''
   \<and> format_file_size str2f (JInt 1536) = Inr ''1.5 KB''
   \<and> format_file_size str2f (JInt 1048576) = Inr ''1.0 MB''
   \<and> format_file_size str2f (JInt 1073741824) = Inr ''1.0 GB''"
proof -
  have general: "format_file_size str2f (JInt n) =
        Inr (let r = fval s;
                 k = (if r < 1024 then 0 else if r < 1024 ^ 2 then 1
                      else if r < 1024 ^ 3 then 2 else 3 :: nat)
             in format_float 1 (Finite (r / 1024 ^ k)) @ '' '' @ [''B'', ''KB'', ''MB'', ''GB''] ! k)
      \<and> (\<exists>ds d u. format_file_size str2f (JInt n) = Inr (ds @ ''.'' @ [d] @ '' '' @ u)
              \<and> d \<in> set ''0123456789'' \<and> u \<in> set units)"
    if n: "0 < n" and s: "float_of_int n = Inr s"
  proof -
    from n s obtain r where r: "s = Finite r" "is_double r" "0 \<le> r" "r < 2 ^ 1024"
      by (rule float_of_int_is_double)
    define k :: nat where "k = (if r < 1024 then 0 else if r < 1024 ^ 2 then 1
                           else if r < 1024 ^ 3 then 2 else 3)"
    have loop: "size_loop (Finite r) 0 = Inr (Finite (r / 1024 ^ k), k)"
      using size_loop_closed [OF r(2) r(4)] by (simp add: k_def Let_def)
    have eq: "format_file_size str2f (JInt n) =
                Inr (format_float 1 (Finite (r / 1024 ^ k)) @ '' '' @ units ! k)"
      using n s r(1) loop by (simp add: format_file_size_def and_then_def)
    have "k < 4" by (simp add: k_def)
    then have u: "units ! k \<in> set units" by (intro nth_mem) (simp add: units_def)
    have nn: "\<not> r / 1024 ^ k < 0" using r(3) by (simp add: not_less)
    obtain ds d where d: "fixed_digits 1 \<bar>r / 1024 ^ k\<bar> = ds @ ''.'' @ [d]"
      "d \<in> set ''0123456789''" using fixed_digits_one_decimal by blast
    have "format_file_size str2f (JInt n) = Inr (ds @ ''.'' @ [d] @ '' '' @ units ! k)"
      using eq nn d(1) by simp
    with d(2) u have "\<exists>ds d u. format_file_size str2f (JInt n) = Inr (ds @ ''.'' @ [d] @ '' '' @ u)
              \<and> d \<in> set ''0123456789'' \<and> u \<in> set units" by blast
    moreover have "format_file_size str2f (JInt n) =
        Inr (let r = fval s;
                 k = (if r < 1024 then 0 else if r < 1024 ^ 2 then 1
                      else if r < 1024 ^ 3 then 2 else 3 :: nat)
             in format_float 1 (Finite (r / 1024 ^ k)) @ '' '' @ [''B'', ''KB'', ''MB'', ''GB''] ! k)"
      using eq r(1) by (simp add: Let_def k_def units_def)
    ultimately show ?thesis by blast
  qed
  have zero: "format_file_size str2f (JInt 0) = Inr ''0 B''"
    by (simp add: format_file_size_def)
  have e2: "format_file_size str2f (JInt 1536) = Inr ''1.5 KB''"
    by (simp add: format_file_size_def and_then_def float_of_int_def fl_eval fdiv_def units_def
        fmt_eval size_loop.simps)
  have e3: "format_file_size str2f (JInt 1048576) = Inr ''1.0 MB''"
    by (simp add: format_file_size_def and_then_def float_of_int_def fl_eval fdiv_def units_def
        fmt_eval size_loop.simps)
  have e4: "format_file_size str2f (JInt 1073741824) = Inr ''1.0 GB''"
    by (simp add: format_file_size_def and_then_def float_of_int_def fl_eval fdiv_def units_def
        fmt_eval size_loop.simps)
  have "format_file_size str2f (JInt n) =
        Inr (if n = 0 then ''0 B''
             else let r = fval s;
                      k = (if r < 1024 then 0 else if r < 1024 ^ 2 then 1
                           else if r < 1024 ^ 3 then 2 else 3 :: nat)
                  in format_float 1 (Finite (r / 1024 ^ k)) @ '' '' @ [''B'', ''KB'', ''MB'', ''GB''] ! k)
      \<and> (n \<noteq> 0 \<longrightarrow>
           (\<exists>ds d u. format_file_size str2f (JInt n) = Inr (ds @ ''.'' @ [d] @ '' '' @ u)
              \<and> d \<in> set ''0123456789'' \<and> u \<in> set units))"
    if "0 \<le> n" "float_of_int n = Inr s"
  proof (cases "n = 0")
    case True
    then show ?thesis using zero by simp
  next
    case False
    with that(1) have "0 < n" by simp
    from general [OF this that(2)]
    have a: "format_file_size str2f (JInt n) =
        Inr (let r = fval s;
                 k = (if r < 1024 then 0 else if r < 1024 ^ 2 then 1
                      else if r < 1024 ^ 3 then 2 else 3 :: nat)
             in format_float 1 (Finite (r / 1024 ^ k)) @ '' '' @ [''B'', ''KB'', ''MB'', ''GB''] ! k)"
      and b: "\<exists>ds d u. format_file_size str2f (JInt n) = Inr (ds @ ''.'' @ [d] @ '' '' @ u)
              \<and> d \<in> set ''0123456789'' \<and> u \<in> set units" by blast+
    from a False have "format_file_size str2f (JInt n) =
        Inr (if n = 0 then ''0 B''
             else let r = fval s;
                      k = (if r < 1024 then 0 else if r < 1024 ^ 2 then 1
                           else if r < 1024 ^ 3 then 2 else 3 :: nat)
                  in format_float 1 (Finite (r / 1024 ^ k)) @ '' '' @ [''B'', ''KB'', ''MB'', ''GB''] ! k)"
      by (simp only: if_False)
    with b show ?thesis by blast
  qed
  with zero e2 e3 e4 show ?thesis by blast
qed

text \<open>The theorem of C5 at 1536 bytes.\<close>

theorem format_file_size_int_witness:
  "float_of_int 1536 = Inr (Finite 1536)
   \<and> format_file_size (\<lambda>s. Inl ValueError) (JInt 1536) = Inr ''1.5 KB''
   \<and> fixed_digits 1 (1536 / 1024) = ''1.5''"
proof -
  have f: "float_of_int 1536 = Inr (Finite 1536)"
    by (simp add: float_of_int_def fl_eval)
  have "format_file_size (\<lambda>s. Inl ValueError) (JInt 1536) =
          Inr (format_float 1 (Finite (1536 / 1024 ^ 1)) @ '' '' @ [''B'', ''KB'', ''MB'', ''GB''] ! 1)"
    using format_file_size_int [of 1536 "Finite 1536" "\<lambda>s. Inl ValueError"] f
    by (simp add: Let_def)
  moreover have "fixed_digits 1 (1536 / 1024) = ''1.5''"
    by (simp add: fmt_eval)
  ultimately show ?thesis using f by simp
qed

subsection \<open>C3: the progress bar\<close>

lemma float_of_int_40: "float_of_int 40 = Inr (Finite 40)"
  by (simp add: float_of_int_def fl_eval)

lemma float_of_int_100: "float_of_int 100 = Inr (Finite 100)"
  by (simp add: float_of_int_def fl_eval)

lemma filled_length_int:
  assumes "0 \<le> n" "n \<le> 100"
  shows "filled_length (JInt n) = Inr (40 * n div 100)"
proof (cases "n = 0")
  case True
  then show ?thesis
    by (simp add: filled_length_def and_then_def bar_length_def int_truediv_def signed_zero_def)
next
  case False
  with assms have n: "0 < n" by simp
  let ?a = "real_of_int (40 * n) / real_of_int 100"
  let ?K = "40 * n div 100"
  have pos: "0 < ?a" using n by simp
  have hi: "?a \<le> of_int 40" using assms by simp
  from pos hi obtain r where r: "round_float ?a = Finite r" "0 \<le> r"
    and lo: "\<And>lo. of_int lo \<le> ?a \<Longrightarrow> of_int lo \<le> r"
    and up: "\<And>N. ?a < 2 ^ 51 \<Longrightarrow> ?a \<le> of_int N - 1 / 5 \<Longrightarrow> r < of_int N"
    by (rule round_float_small [where hi = 40]) simp_all
  have "(40 * n) mod 100 = 20 * ((2 * n) mod 5)"
    using mult_mod_right [of 20 "2 * n" 5] by simp
  moreover have "(2 * n) mod 5 \<le> 4" by simp
  ultimately have m: "(40 * n) mod 100 \<le> 80" by simp
  have split: "real_of_int (40 * n) = of_int (100 * ?K + (40 * n) mod 100)"
    by (simp only: mult_div_mod_eq)
  have "of_int ?K \<le> ?a" using split by (simp add: field_simps)
  then have 1: "of_int ?K \<le> r" by (rule lo)
  have "real_of_int ((40 * n) mod 100) \<le> of_int 80" using m by (simp only: of_int_le_iff)
  then have "?a \<le> of_int (?K + 1) - 1 / 5" using split by (simp add: field_simps)
  moreover have "?a < 2 ^ 51" using hi by simp
  ultimately have 2: "r < of_int (?K + 1)" by (intro up)
  from 1 2 have "\<lfloor>r\<rfloor> = ?K" by (simp add: floor_unique)
  then show ?thesis using r n
    by (simp add: filled_length_def and_then_def bar_length_def int_truediv_def)
qed

lemma fmul_40_range:
  assumes "0 \<le> x" "x \<le> 100"
  obtains y where "fmul (Finite 40) (Finite x) = Finite y" and "0 \<le> y" and "y \<le> 4000"
proof (cases "x = 0")
  case True
  then have "fmul (Finite 40) (Finite x) = Finite 0" by (simp add: fmul_def signed_zero_def)
  then show ?thesis using that by simp
next
  case False
  with assms have "0 < 40 * x" "40 * x \<le> of_int 4000" by simp_all
  then obtain r where "round_float (40 * x) = Finite r" "0 \<le> r" "r \<le> of_int 4000"
    by (rule round_float_small) simp_all
  with False show ?thesis using that by (simp add: fmul_def)
qed

lemma fdiv_100_range:
  assumes "0 \<le> y" "y \<le> 4000"
  obtains z where "fdiv (Finite y) (Finite 100) = Inr (Finite z)" and "0 \<le> z" and "z \<le> 40"
proof (cases "y = 0")
  case True
  then have "fdiv (Finite y) (Finite 100) = Inr (Finite 0)" by (simp add: fdiv_def signed_zero_def)
  then show ?thesis using that by simp
next
  case False
  with assms have "0 < y / 100" "y / 100 \<le> of_int 40" by simp_all
  then obtain r where "round_float (y / 100) = Finite r" "0 \<le> r" "r \<le> of_int 40"
    by (rule round_float_small) simp_all
  with False show ?thesis using that by (simp add: fdiv_def)
qed

lemma filled_length_float:
  assumes "0 \<le> x" "x \<le> 100"
  obtains z where "fdiv (fmul (Finite 40) (Finite x)) (Finite 100) = Inr (Finite z)"
    and "0 \<le> z" and "z \<le> 40" and "filled_length (JFloat (Finite x)) = Inr \<lfloor>z\<rfloor>"
proof -
  from assms obtain y where y: "fmul (Finite 40) (Finite x) = Finite y" "0 \<le> y" "y \<le> 4000"
    by (rule fmul_40_range)
  from y(2,3) obtain z where z: "fdiv (Finite y) (Finite 100) = Inr (Finite z)" "0 \<le> z" "z \<le> 40"
    by (rule fdiv_100_range)
  have "filled_length (JFloat (Finite x)) = Inr \<lfloor>z\<rfloor>"
    using y(1) z(1,2)
    by (simp add: filled_length_def and_then_def bar_length_def float_of_int_40 float_of_int_100)
  with y(1) z show ?thesis using that by simp
qed

lemma bar_in_range:
  assumes "0 \<le> k" "k \<le> 40"
  shows "bar k = Inr (replicate (nat k) full_block @ replicate (nat (40 - k)) light_shade)"
  using assms by (simp add: bar_def str_repeat_def ssize_max_def bar_length_def and_then_def)

lemma progress_line_bar:
  assumes "progress_line str2f event = Inr t"
  shows "\<exists>k b rest. filled_length (dict_get event ''progress_percentage'' (JInt 0)) = Inr k
           \<and> bar k = Inr b \<and> t = [Lit [CHR 0x0D], Lit ''  ''] @ b @ rest"
  using assms unfolding progress_line_def Let_def and_then_def
  by (auto split: sum.splits)

text \<open>
  Counterexample to C3 as stated: at 99 percent the code fills \<open>int(39.6) = 39\<close>
  cells, the specification's rounding gives 40.
\<close>

theorem filled_length_not_rounded:
  "filled_length (JInt 99) = Inr 39 \<and> spec_filled_length bar_length 99 = 40"
proof -
  have "filled_length (JInt 99) = Inr 39"
    by (simp add: filled_length_def and_then_def bar_length_def int_truediv_def fl_eval)
  moreover have "spec_filled_length bar_length 99 = 40"
    by (simp add: spec_filled_length_def bar_length_def round_def)
  ultimately show ?thesis by simp
qed

text \<open>
  C3 (amended): for every \<^verbatim>\<open>chapter_progress\<close> event whose
  \<^verbatim>\<open>progress_percentage\<close> is a number in \<open>[0, 100]\<close>, the bar is 40 cells wide and
  its filled cells number \<^verbatim>\<open>int(40 * p / 100)\<close>: the double-precision quotient
  truncated toward zero, not rounded. For an \<^verbatim>\<open>int\<close> percentage that is the integer
  quotient \<open>40 * p div 100\<close>. The count lies in \<open>[0, 40]\<close> without any clamping, and
  the printed line starts with the carriage return, two spaces and that bar.
\<close>

theorem chapter_progress_filled_cells:
  assumes p: "dict_get event ''progress_percentage'' (JInt 0) = p"
    and range: "p = JInt n \<and> 0 \<le> n \<and> n \<le> 100 \<or> p = JFloat (Finite x) \<and> 0 \<le> x \<and> x \<le> 100"
  shows "\<exists>k. filled_length p = Inr k \<and> 0 \<le> k \<and> k \<le> 40
           \<and> bar k = Inr (replicate (nat k) full_block @ replicate (nat (40 - k)) light_shade)
           \<and> (p = JInt n \<longrightarrow> k = 40 * n div 100)
           \<and> (p = JFloat (Finite x) \<longrightarrow>
                (\<exists>z. fdiv (fmul (Finite 40) (Finite x)) (Finite 100) = Inr (Finite z) \<and> k = \<lfloor>z\<rfloor>))
           \<and> (\<forall>t. progress_line str2f event = Inr t \<longrightarrow>
                take 42 t = [Lit [CHR 0x0D], Lit ''  '']
                            @ replicate (nat k) full_block @ replicate (nat (40 - k)) light_shade)"
proof -
  have line: "take 42 t = [Lit [CHR 0x0D], Lit ''  '']
                @ replicate (nat k) full_block @ replicate (nat (40 - k)) light_shade"
    if k: "filled_length p = Inr k" "0 \<le> k" "k \<le> 40" and t: "progress_line str2f event = Inr t"
    for k t
  proof -
    from progress_line_bar [OF t] p k(1) obtain b rest
      where b: "bar k = Inr b" "t = [Lit [CHR 0x0D], Lit ''  ''] @ b @ rest" by auto
    from bar_in_range [OF k(2,3)] b(1)
    have "b = replicate (nat k) full_block @ replicate (nat (40 - k)) light_shade" by simp
    moreover from this k(2,3) have "length b = 40" by simp
    ultimately show ?thesis using b(2) by simp
  qed
  from range show ?thesis
  proof
    assume a: "p = JInt n \<and> 0 \<le> n \<and> n \<le> 100"
    let ?k = "40 * n div 100"
    from a have f: "filled_length p = Inr ?k" by (simp add: filled_length_int)
    from a have "0 \<le> n" "n \<le> 100" by simp_all
    then have "0 \<le> 40 * n" "40 * n \<le> 4000" by simp_all
    then have "0 div 100 \<le> ?k" "?k \<le> 4000 div 100" by (intro zdiv_mono1; simp)+
    then have k: "0 \<le> ?k" "?k \<le> 40" by simp_all
    from f k bar_in_range [OF k] line [OF f k] a show ?thesis by auto
  next
    assume a: "p = JFloat (Finite x) \<and> 0 \<le> x \<and> x \<le> 100"
    then have "0 \<le> x" "x \<le> 100" by simp_all
    then obtain z where z: "fdiv (fmul (Finite 40) (Finite x)) (Finite 100) = Inr (Finite z)"
      "0 \<le> z" "z \<le> 40" "filled_length (JFloat (Finite x)) = Inr \<lfloor>z\<rfloor>"
      by (rule filled_length_float)
    from a z(4) have f: "filled_length p = Inr \<lfloor>z\<rfloor>" by simp
    from z(2,3) have k: "0 \<le> \<lfloor>z\<rfloor>" "\<lfloor>z\<rfloor> \<le> 40" by (simp_all add: floor_le_iff) 
    from f k bar_in_range [OF k] line [OF f k] a z(1) show ?thesis by auto
  qed
qed

text \<open>
  The theorem of C3 at 99 percent.
\<close>

theorem chapter_progress_filled_cells_witness:
  "dict_get [(''type'', JStr ''chapter_progress''), (''progress_percentage'', JInt 99)]
     ''progress_percentage'' (JInt 0) = JInt 99
   \<and> filled_length (JInt 99) = Inr 39
   \<and> bar 39 = Inr (replicate 39 full_block @ replicate 1 light_shade)"
proof -
  have d: "dict_get [(''type'', JStr ''chapter_progress''), (''progress_percentage'', JInt 99)]
     ''progress_percentage'' (JInt 0) = JInt 99" by (simp add: dict_get_def)
  have "JInt 99 = JInt 99 \<and> (0::int) \<le> 99 \<and> (99::int) \<le> 100
          \<or> JInt 99 = JFloat (Finite 0) \<and> (0::real) \<le> 0 \<and> (0::real) \<le> 100" by simp
  from chapter_progress_filled_cells [OF d this, of "\<lambda>s. Inl ValueError"]
  obtain k where "filled_length (JInt 99) = Inr k" "k = 40 * 99 div 100"
    "bar k = Inr (replicate (nat k) full_block @ replicate (nat (40 - k)) light_shade)" by auto
  then show ?thesis using d by simp
qed

subsection \<open>C7: what an event may change\<close>

lemmas handler_defs = on_conversion_started_def on_chapter_started_def on_chapter_progress_def
  on_chapter_completed_def on_conversion_completed_def on_error_def

text \<open>
  C7: handling an event changes \<open>total_chapters\<close> or \<open>start_time\<close> only when its
  tag is \<^verbatim>\<open>conversion_started\<close>, \<open>current_chapter\<close> only when it is
  \<^verbatim>\<open>chapter_started\<close>, \<open>conversion_success\<close> only when it is
  \<^verbatim>\<open>conversion_completed\<close>; an event with any other tag, or no tag, or that is no
  object at all, leaves the parser as it was. This holds also when the call raises.
\<close>

theorem handle_event_frame:
  "(case handle_event str2f now self event of
      (self1, out1, r) \<Rightarrow>
        (total_chapters self1 \<noteq> total_chapters self \<or> start_time self1 \<noteq> start_time self \<longrightarrow>
           (\<exists>kvs. event = JDict kvs \<and> dict_get kvs ''type'' JNull = JStr ''conversion_started''))
      \<and> (current_chapter self1 \<noteq> current_chapter self \<longrightarrow>
           (\<exists>kvs. event = JDict kvs \<and> dict_get kvs ''type'' JNull = JStr ''chapter_started''))
      \<and> (conversion_success self1 \<noteq> conversion_success self \<longrightarrow>
           (\<exists>kvs. event = JDict kvs \<and> dict_get kvs ''type'' JNull = JStr ''conversion_completed''))
      \<and> ((\<forall>kvs. event = JDict kvs \<longrightarrow>
              dict_get kvs ''type'' JNull \<noteq> JStr ''conversion_started''
              \<and> dict_get kvs ''type'' JNull \<noteq> JStr ''chapter_started''
              \<and> dict_get kvs ''type'' JNull \<noteq> JStr ''conversion_completed'') \<longrightarrow>
           self1 = self))"
proof (cases event)
  case (JDict kvs)
  then show ?thesis
    by (simp add: handler_defs Let_def split: sum.splits)
qed simp_all

text \<open>
  The theorem of C7 at a \<^verbatim>\<open>conversion_started\<close> event and at an unknown tag.
\<close>

theorem handle_event_frame_witness:
  "total_chapters (fst (handle_event (\<lambda>s. Inl ValueError) (Finite 0) init
      (JDict [(''type'', JStr ''conversion_started''), (''total_chapters'', JInt 2)])))
     \<noteq> total_chapters init
   \<and> dict_get [(''type'', JStr ''conversion_started''), (''total_chapters'', JInt 2)] ''type'' JNull
       = JStr ''conversion_started''
   \<and> fst (handle_event (\<lambda>s. Inl ValueError) (Finite 0) init (JDict [(''type'', JStr ''heartbeat'')]))
       = init"
  using handle_event_frame [where str2f = "\<lambda>s. Inl ValueError" and now = "Finite 0" and self = init
      and event = "JDict [(''type'', JStr ''conversion_started''), (''total_chapters'', JInt 2)]"]
    handle_event_frame [where str2f = "\<lambda>s. Inl ValueError" and now = "Finite 0" and self = init
      and event = "JDict [(''type'', JStr ''heartbeat'')]"]
  by (simp add: dict_get_def on_conversion_started_def init_def)

subsection \<open>C8: the chapter number and the total\<close>




subsection \<open>C6: absent fields\<close>








subsection \<open>C9: the clock does not reach the output\<close>

lemma handle_event_clock:
  assumes "same_progress s1 s2"
  shows "same_progress (fst (handle_event str2f t1 s1 event)) (fst (handle_event str2f t2 s2 event))
         \<and> snd (handle_event str2f t1 s1 event) = snd (handle_event str2f t2 s2 event)"
proof (cases event)
  case (JDict kvs)
  then show ?thesis using assms
    by (simp add: handler_defs Let_def same_progress_def split: sum.splits)
qed (simp_all add: assms)

lemma read_loop_clock:
  assumes "same_progress s1 s2"
  shows "same_progress (fst (read_loop (w\<lparr>time_time := c1\<rparr>) i s1 lines))
                       (fst (read_loop (w\<lparr>time_time := c2\<rparr>) i s2 lines))
         \<and> snd (read_loop (w\<lparr>time_time := c1\<rparr>) i s1 lines)
             = snd (read_loop (w\<lparr>time_time := c2\<rparr>) i s2 lines)"
  using assms
proof (induction lines arbitrary: i s1 s2)
  case Nil
  then show ?case by simp
next
  case (Cons line rest)
  show ?case
  proof (cases "parse_event (json_loads w) line")
    case (Inl e)
    then show ?thesis using Cons.prems by simp
  next
    case (Inr event)
    show ?thesis
    proof (cases "truthy event")
      case False
      then show ?thesis using Inr Cons.IH [OF Cons.prems] by simp
    next
      case True
      let ?h1 = "handle_event (float_of_str w) (c1 i) s1 event"
      let ?h2 = "handle_event (float_of_str w) (c2 i) s2 event"
      from handle_event_clock [OF Cons.prems, of "float_of_str w" "c1 i" event "c2 i"]
      have h: "same_progress (fst ?h1) (fst ?h2)" "snd ?h1 = snd ?h2" by simp_all
      obtain a1 o1 r1 where h1: "?h1 = (a1, o1, r1)" by (cases ?h1)
      obtain a2 o2 r2 where h2: "?h2 = (a2, o2, r2)" by (cases ?h2)
      from h h1 h2 have eq: "same_progress a1 a2" "o1 = o2" "r1 = r2" by simp_all
      show ?thesis
      proof (cases r1)
        case None
        from Cons.IH [OF eq(1), of "Suc i"] show ?thesis
          using Inr True h1 h2 eq None by (simp add: split_beta)
      next
        case (Some e)
        then show ?thesis using Inr True h1 h2 eq by simp
      qed
    qed
  qed
qed

lemma example_loads_simps:
  "example_loads ''[1, 2]'' = Inr (JList [JInt 1, JInt 2])"
  "example_loads ''5'' = Inr (JInt 5)"
  "example_loads chapter_one_line
     = Inr (JDict [(''type'', JStr ''chapter_started''), (''chapter_number'', JInt 1)])"
  "example_loads ''not json'' = Inl JSONDecodeError"
  by (simp_all add: example_loads_def chapter_one_line_def quoted_def)

lemma strip_examples:
  "strip ''[1, 2]'' = ''[1, 2]''"
  "strip ''5'' = ''5''"
  "strip chapter_one_line = chapter_one_line"
  "strip ''not json '' = ''not json''"
  by (simp_all add: strip_def isspace_def chapter_one_line_def quoted_def)

text \<open>
  C9: decoding and handling are functions of the line, the prior parser and the two
  interpreter functions; the one input that differs between two runs is the clock.
  Whatever the clock reads, every line of a stream prints the same text and ends in the
  same exception or none, the parsers after it record the same progress, a single event
  is rendered the same, and \<^verbatim>\<open>run_conversion\<close> prints and returns the same.
\<close>

theorem output_independent_of_clock:
  "snd (read_loop (w\<lparr>time_time := c1\<rparr>) i self lines)
     = snd (read_loop (w\<lparr>time_time := c2\<rparr>) i self lines)
   \<and> same_progress (fst (read_loop (w\<lparr>time_time := c1\<rparr>) i self lines))
                     (fst (read_loop (w\<lparr>time_time := c2\<rparr>) i self lines))
   \<and> snd (handle_event str2f t1 self event) = snd (handle_event str2f t2 self event)
   \<and> printed (run_conversion (w\<lparr>time_time := c1\<rparr>) self args)
       = printed (run_conversion (w\<lparr>time_time := c2\<rparr>) self args)
   \<and> returned (run_conversion (w\<lparr>time_time := c1\<rparr>) self args)
       = returned (run_conversion (w\<lparr>time_time := c2\<rparr>) self args)"
proof -
  have refl: "same_progress self self" by (simp add: same_progress_def)
  note loop = read_loop_clock [OF refl, where w = w and ?c1.0 = c1 and ?c2.0 = c2]
  have h: "snd (handle_event str2f t1 self event) = snd (handle_event str2f t2 self event)"
    using handle_event_clock [OF refl] by simp
  have run: "printed (run_conversion (w\<lparr>time_time := c1\<rparr>) self args)
       = printed (run_conversion (w\<lparr>time_time := c2\<rparr>) self args)
     \<and> returned (run_conversion (w\<lparr>time_time := c1\<rparr>) self args)
       = returned (run_conversion (w\<lparr>time_time := c2\<rparr>) self args)"
  proof (cases "popen w (args @ [machine_readable])")
    case (PopenRaises e)
    then show ?thesis by (simp add: run_conversion_def Let_def)
  next
    case (PopenOk ls rc err)
    obtain a1 o1 r1 where l1: "read_loop (w\<lparr>time_time := c1\<rparr>) 0 self ls = (a1, o1, r1)"
      by (cases "read_loop (w\<lparr>time_time := c1\<rparr>) 0 self ls")
    obtain a2 o2 r2 where l2: "read_loop (w\<lparr>time_time := c2\<rparr>) 0 self ls = (a2, o2, r2)"
      by (cases "read_loop (w\<lparr>time_time := c2\<rparr>) 0 self ls")
    from loop [where i = 0 and lines = ls] l1 l2 have "o1 = o2" "r1 = r2" by simp_all
    then show ?thesis using PopenOk l1 l2
      by (cases r2) (simp_all add: run_conversion_def Let_def)
  qed
  from loop [where i = i and lines = lines] h run show ?thesis by simp
qed

text \<open>
  The theorem of C9 at a \<^verbatim>\<open>chapter_started\<close> line under two clocks.
\<close>

theorem output_independent_of_clock_witness:
  "snd (read_loop ((example_world (PopenOk [] 0 []))\<lparr>time_time := (\<lambda>i. Finite 1)\<rparr>) 0 init
          [chapter_one_line])
     = snd (read_loop ((example_world (PopenOk [] 0 []))\<lparr>time_time := (\<lambda>i. Finite 2)\<rparr>) 0 init
          [chapter_one_line])"
  using output_independent_of_clock [where w = "example_world (PopenOk [] 0 [])"
      and ?c1.0 = "\<lambda>i. Finite 1" and ?c2.0 = "\<lambda>i. Finite 2" and i = 0 and self = init
      and lines = "[chapter_one_line]"]
  by simp

subsection \<open>C2: a line that is not JSON\<close>



subsection \<open>C10: valid JSON that is no object\<close>

lemma read_loop_append:
  "read_loop w i self (xs @ ys) =
     (case read_loop w i self xs of
        (s1, o1, Some e) \<Rightarrow> (s1, o1, Some e)
      | (s1, o1, None) \<Rightarrow>
          (case read_loop w (i + length xs) s1 ys of (s2, o2, r) \<Rightarrow> (s2, o1 @ o2, r)))"
proof (induction xs arbitrary: i self)
  case Nil
  then show ?case by (simp add: split_beta)
next
  case (Cons line rest)
  show ?case
  proof (cases "parse_event (json_loads w) line")
    case (Inl e)
    then show ?thesis by simp
  next
    case (Inr event)
    show ?thesis
    proof (cases "truthy event")
      case False
      then show ?thesis using Inr Cons.IH [of "Suc i" self]
        by (simp split: prod.splits option.splits)
    next
      case True
      obtain a1 o1 r1 where h: "handle_event (float_of_str w) (time_time w i) self event = (a1, o1, r1)"
        by (cases "handle_event (float_of_str w) (time_time w i) self event")
      show ?thesis
      proof (cases r1)
        case None
        then show ?thesis using Inr True h Cons.IH [of "Suc i" a1]
          by (simp split: prod.splits option.splits)
      next
        case (Some e)
        then show ?thesis using Inr True h by simp
      qed
    qed
  qed
qed

lemma handle_event_non_object:
  "(case v of JDict kvs \<Rightarrow> False | _ \<Rightarrow> True) \<Longrightarrow>
   handle_event str2f now self v = (self, [], Some AttributeError)"
  by (cases v) simp_all

text \<open>
  C10: a line that decodes to a value that is true and is not a dict (a non-empty list,
  a non-zero number, a non-empty string, \<^verbatim>\<open>true\<close>) is returned by
  \<^verbatim>\<open>parse_event\<close>; \<^verbatim>\<open>handle_event\<close> raises AttributeError on it; the loop
  ends there without reading the rest; and \<^verbatim>\<open>run_conversion\<close> returns 1 whatever
  the exit code of the child, after the lines before it were handled.
\<close>

theorem non_object_aborts_run:
  assumes "json_loads w (strip line) = Inr v" and "truthy v"
    and "(case v of JDict kvs \<Rightarrow> False | _ \<Rightarrow> True)"
  shows "parse_event (json_loads w) line = Inr v
         \<and> handle_event str2f now self v = (self, [], Some AttributeError)
         \<and> read_loop w i self (line # rest) = (self, [], Some AttributeError)
         \<and> (\<forall>pre self1 out1 rc err.
               popen w (args @ [machine_readable]) = PopenOk (pre @ line # rest) rc err
               \<and> read_loop w 0 self pre = (self1, out1, None) \<longrightarrow>
               returned (run_conversion w self args) = 1
               \<and> parser_after (run_conversion w self args) = self1
               \<and> printed (run_conversion w self args)
                   = banner @ out1 @ print_line [newline, Glyph 0x274C,
                                                 Lit '' Error running audible-util: '',
                                                 Exc AttributeError])"
proof -
  have p: "parse_event (json_loads w) line = Inr v" using assms(1) by (simp add: parse_event_def)
  have h: "handle_event str2f now self v = (self, [], Some AttributeError)" for str2f now self
    using assms(3) by (rule handle_event_non_object)
  have l: "read_loop w i self (line # rest) = (self, [], Some AttributeError)" for i self
    using p assms(2) h by simp
  have "returned (run_conversion w self args) = 1
        \<and> parser_after (run_conversion w self args) = self1
        \<and> printed (run_conversion w self args)
            = banner @ out1 @ print_line [newline, Glyph 0x274C,
                                          Lit '' Error running audible-util: '', Exc AttributeError]"
    if "popen w (args @ [machine_readable]) = PopenOk (pre @ line # rest) rc err"
      and "read_loop w 0 self pre = (self1, out1, None)" for pre self1 out1 rc err
  proof -
    have "read_loop w 0 self (pre @ line # rest) = (self1, out1, Some AttributeError)"
      using that(2) l by (simp add: read_loop_append)
    then show ?thesis using that(1) by (simp add: run_conversion_def Let_def)
  qed
  with p h l show ?thesis by blast
qed

text \<open>
  The theorem of C10 at the line \<^verbatim>\<open>[1, 2]\<close> between two events, the child
  exiting with 0.
\<close>

theorem non_object_aborts_run_witness:
  "json_loads (example_world (PopenOk [chapter_one_line, ''[1, 2]'', chapter_one_line] 0 []))
     (strip ''[1, 2]'') = Inr (JList [JInt 1, JInt 2])
   \<and> truthy (JList [JInt 1, JInt 2])
   \<and> returned (run_conversion
         (example_world (PopenOk [chapter_one_line, ''[1, 2]'', chapter_one_line] 0 []))
         init [''audible-util'']) = 1"
proof -
  let ?w = "example_world (PopenOk [chapter_one_line, ''[1, 2]'', chapter_one_line] 0 [])"
  have 1: "json_loads ?w (strip ''[1, 2]'') = Inr (JList [JInt 1, JInt 2])"
    by (simp add: example_world_def strip_examples example_loads_simps)
  have 2: "truthy (JList [JInt 1, JInt 2])" by simp
  have 3: "(case JList [JInt 1, JInt 2] of JDict kvs \<Rightarrow> False | _ \<Rightarrow> True)" by simp
  have 4: "popen ?w ([''audible-util''] @ [machine_readable])
             = PopenOk ([chapter_one_line] @ ''[1, 2]'' # [chapter_one_line]) 0 []"
    by (simp add: example_world_def)
  have 5: "\<exists>self1 out1. read_loop ?w 0 init [chapter_one_line] = (self1, out1, None)"
    by (simp add: parse_event_def strip_examples example_world_def example_loads_simps dict_get_def
        on_chapter_started_def Let_def and_then_def float_of_int_def round_float_def)
  from non_object_aborts_run [OF 1 2 3, where self = init and args = "[''audible-util'']"
      and rest = "[chapter_one_line]"] 4 5
  have "returned (run_conversion ?w init [''audible-util'']) = 1" by blast
  with 1 2 show ?thesis by simp
qed

subsection \<open>C1: the value returned by the supervisor\<close>




subsection \<open>C4: the estimated time\<close>

text \<open>
  C4: the code at its failing input. \<^verbatim>\<open>eta_seconds\<close> present with the value 0
  is rendered \<^verbatim>\<open>Unknown\<close>, as an absent or \<^verbatim>\<open>null\<close> one is, because the code
  tests the truth value of \<^verbatim>\<open>eta\<close>; 42.7 is rendered \<^verbatim>\<open>43s\<close>.
\<close>

theorem eta_zero_rendered_unknown:
  "eta_str (JInt 0) = Inr ''Unknown''
   \<and> eta_str (JFloat (Finite 0)) = Inr ''Unknown''
   \<and> eta_str JNull = Inr ''Unknown''
   \<and> eta_str (JFloat (round_float (427 / 10))) = Inr ''43s''
   \<and> progress_line (\<lambda>s. Inl ValueError)
         [(''type'', JStr ''chapter_progress''), (''eta_seconds'', JInt 0)]
       = Inr ([Lit [CHR 0x0D], Lit ''  ''] @ replicate 40 light_shade
              @ [Lit '' '', Lit ''  0.0'', Lit ''% | Speed: '', Lit ''0.0'', Lit ''x | Bitrate: '',
                 Lit ''0'', Lit ''kbps | Size: '', Lit ''0 B'', Lit '' | ETA: '', Lit ''Unknown''])"
proof -
  have 1: "eta_str (JInt 0) = Inr ''Unknown''" by (simp add: eta_str_def)
  have 2: "eta_str (JFloat (Finite 0)) = Inr ''Unknown''" by (simp add: eta_str_def)
  have 3: "eta_str JNull = Inr ''Unknown''" by (simp add: eta_str_def)
  have 4: "eta_str (JFloat (round_float (427 / 10))) = Inr ''43s''"
    by (simp add: eta_str_def and_then_def fl_eval fmt_eval)
  have f: "filled_length (JInt 0) = Inr 0"
    by (simp add: filled_length_def and_then_def bar_length_def int_truediv_def signed_zero_def)
  have b: "bar 0 = Inr (replicate 40 light_shade)"
    by (simp add: bar_def str_repeat_def ssize_max_def bar_length_def and_then_def)
  have s: "format_file_size (\<lambda>s. Inl ValueError) (JInt 0) = Inr ''0 B''"
    by (simp add: format_file_size_def)
  have z: "float_of_int 0 = Inr (Finite 0)" by (simp add: float_of_int_def round_float_def)
  have r: "replicate 2 (CHR '' '') = ''  ''" by (simp add: numeral_2_eq_2)
  have 5: "progress_line (\<lambda>s. Inl ValueError)
         [(''type'', JStr ''chapter_progress''), (''eta_seconds'', JInt 0)]
       = Inr ([Lit [CHR 0x0D], Lit ''  ''] @ replicate 40 light_shade
              @ [Lit '' '', Lit ''  0.0'', Lit ''% | Speed: '', Lit ''0.0'', Lit ''x | Bitrate: '',
                 Lit ''0'', Lit ''kbps | Size: '', Lit ''0 B'', Lit '' | ETA: '', Lit ''Unknown''])"
    by (simp add: progress_line_def dict_get_def Let_def and_then_def f b s z r 1 fmt_eval
        int_truediv_def signed_zero_def)
  from 1 2 3 4 5 show ?thesis by simp
qed

end
